theory Spec2Isabelle
  imports Main "HOL-Library.AList" "HOL-Library.Char_ord" "HOL-Library.List_Lexorder"
begin

section \<open>The logger registry of \<open>logging/registry.go\<close>\<close>

text \<open>
  The registry maps module names to loggers, builds the loggers from a configuration
  view and re-applies the configuration on \<open>Reload\<close>. The Go code works through
  pointers: \<open>*viper.Viper\<close>, \<open>*LoggerRegistry\<close>, the \<open>Logger\<close> interface values
  kept in the store and the \<open>logrus.Fields\<close> maps. The embedding keeps one heap per
  kind of object (a list, addressed by position) inside a \<open>world\<close>; a pointer that may
  be nil is a \<open>ref option\<close>. The embedding is sequential: the mutex of the registry is
  taken and released by every method and has no state of its own here.
\<close>

subsection \<open>Strings\<close>

text \<open>
  Go strings are byte sequences, as \<open>string\<close> is. \<open>sort.Strings\<close> compares byte-wise,
  which is the lexicographic order on \<open>char list\<close>. \<open>strings.ToLower\<close> is the one of
  the Go library: a string of ASCII bytes has its letters \<open>A\<close> to \<open>Z\<close> moved by
  \<open>'a' - 'A'\<close>; any other string is decoded as UTF-8, rune by rune, each rune is
  mapped by \<open>unicode.ToLower\<close> and encoded again, a byte that starts no valid encoding
  counting as the rune \<open>U+FFFD\<close>. The case table of \<open>unicode\<close> for the runes beyond
  ASCII is a parameter, \<open>tbl\<close>.
\<close>

definition isUpperA :: "char \<Rightarrow> bool" where
  "isUpperA c \<longleftrightarrow> 65 \<le> (of_char c :: nat) \<and> (of_char c :: nat) \<le> 90"

definition isLowerA :: "char \<Rightarrow> bool" where
  "isLowerA c \<longleftrightarrow> 97 \<le> (of_char c :: nat) \<and> (of_char c :: nat) \<le> 122"

definition lowerChar :: "char \<Rightarrow> char" where
  "lowerChar c = (if isUpperA c then char_of ((of_char c :: nat) + 32) else c)"

type_synonym rune = nat

definition RuneError :: rune where
  "RuneError = 65533"

text \<open>A byte after the first of an encoding: accepted when it is in the range, and then
  worth its low six bits.\<close>

definition tailByte :: "nat \<times> nat \<Rightarrow> char \<Rightarrow> nat option" where
  "tailByte rg c =
     (if fst rg \<le> (of_char c :: nat) \<and> (of_char c :: nat) \<le> snd rg
      then Some (of_char c mod 64) else None)"

fun tailBytes :: "(nat \<times> nat) list \<Rightarrow> string \<Rightarrow> nat list option" where
  "tailBytes [] bs = Some []"
| "tailBytes (rg # rgs) [] = None"
| "tailBytes (rg # rgs) (b # bs) =
     (case tailByte rg b of None \<Rightarrow> None
      | Some y \<Rightarrow> (case tailBytes rgs bs of None \<Rightarrow> None | Some ys \<Rightarrow> Some (y # ys)))"

text \<open>The table of \<open>utf8\<close> for a first byte beyond ASCII: the bits it carries and the
  ranges accepted for the bytes that follow; none for a byte that starts no encoding.\<close>

definition first :: "nat \<Rightarrow> (nat \<times> (nat \<times> nat) list) option" where
  "first x =
     (if 194 \<le> x \<and> x \<le> 223 then Some (x mod 32, [(128, 191)])
      else if 224 \<le> x \<and> x \<le> 239 then
        Some (x mod 16, [(if x = 224 then 160 else 128, if x = 237 then 159 else 191), (128, 191)])
      else if 240 \<le> x \<and> x \<le> 244 then
        Some (x mod 8, [(if x = 240 then 144 else 128, if x = 244 then 143 else 191),
                        (128, 191), (128, 191)])
      else None)"

text \<open>\<open>utf8.DecodeRuneInString\<close>: the first rune of the string and its width in bytes.\<close>

definition DecodeRuneInString :: "string \<Rightarrow> rune \<times> nat" where
  "DecodeRuneInString s =
     (case s of [] \<Rightarrow> (RuneError, 0)
      | b0 # bs \<Rightarrow>
          if (of_char b0 :: nat) < 128 then (of_char b0, 1)
          else (case first (of_char b0) of None \<Rightarrow> (RuneError, 1)
                | Some (h, rgs) \<Rightarrow>
                    (case tailBytes rgs bs of None \<Rightarrow> (RuneError, 1)
                     | Some ys \<Rightarrow> (foldl (\<lambda>a y. a * 64 + y) h ys, Suc (length rgs)))))"

text \<open>\<open>utf8.EncodeRune\<close>: a rune out of range or a surrogate is encoded as \<open>U+FFFD\<close>.\<close>

definition EncodeRune :: "rune \<Rightarrow> string" where
  "EncodeRune r =
     (if r \<le> 127 then [char_of r]
      else if r \<le> 2047 then [char_of (192 + r div 64), char_of (128 + r mod 64)]
      else if 1114111 < r \<or> (55296 \<le> r \<and> r \<le> 57343) then
        [char_of (239 :: nat), char_of (191 :: nat), char_of (189 :: nat)]
      else if r \<le> 65535 then
        [char_of (224 + r div 4096), char_of (128 + (r div 64) mod 64), char_of (128 + r mod 64)]
      else [char_of (240 + r div 262144), char_of (128 + (r div 4096) mod 64),
            char_of (128 + (r div 64) mod 64), char_of (128 + r mod 64)])"

text \<open>\<open>unicode.ToLower\<close>\<close>

definition unicodeToLower :: "(rune \<Rightarrow> rune) \<Rightarrow> rune \<Rightarrow> rune" where
  "unicodeToLower tbl r =
     (if r \<le> 127 then (if 65 \<le> r \<and> r \<le> 90 then r + 32 else r) else tbl r)"

text \<open>\<open>strings.Map\<close> with a mapping that drops no rune.\<close>

function stringsMap :: "(rune \<Rightarrow> rune) \<Rightarrow> string \<Rightarrow> string" where
  "stringsMap f [] = []"
| "stringsMap f (b # bs) =
     EncodeRune (f (fst (DecodeRuneInString (b # bs))))
       @ stringsMap f (drop (snd (DecodeRuneInString (b # bs)) - 1) bs)"
  by pat_completeness auto
termination
  by (relation "measure (\<lambda>(f, s). length s)") auto

definition ToLower :: "(rune \<Rightarrow> rune) \<Rightarrow> string \<Rightarrow> string" where
  "ToLower tbl s =
     (if list_all (\<lambda>c. (of_char c :: nat) < 128) s then map lowerChar s
      else stringsMap (unicodeToLower tbl) s)"

text \<open>Two bytes are equal up to ASCII case when they are the same byte or the two cases
  of one letter; two strings when they are so byte by byte.\<close>

definition caseEqChar :: "char \<Rightarrow> char \<Rightarrow> bool" where
  "caseEqChar c d \<longleftrightarrow>
     c = d
     \<or> (isUpperA c \<and> isLowerA d \<and> (of_char d :: nat) = of_char c + 32)
     \<or> (isLowerA c \<and> isUpperA d \<and> (of_char c :: nat) = of_char d + 32)"

definition caseEq :: "string \<Rightarrow> string \<Rightarrow> bool" where
  "caseEq s t \<longleftrightarrow> list_all2 caseEqChar s t"

text \<open>\<open>strings.Split(s, sep)\<close> for a one-byte separator: the pieces between the
  separators, one piece (the whole string, possibly empty) when there is none.\<close>

fun Split :: "string \<Rightarrow> char \<Rightarrow> string list" where
  "Split [] sep = [[]]"
| "Split (c # cs) sep =
     (if c = sep then [] # Split cs sep
      else (case Split cs sep of [] \<Rightarrow> [[c]] | p # ps \<Rightarrow> (c # p) # ps))"

fun Join :: "string list \<Rightarrow> string \<Rightarrow> string" where
  "Join [] sep = []"
| "Join [x] sep = x"
| "Join (x # y # ys) sep = x @ sep @ Join (y # ys) sep"

subsection \<open>Objects and the heap\<close>

type_synonym ref = nat

datatype error = NilDeref

text \<open>
  The configuration view is the external library \<open>viper\<close>; the registry uses five of its
  methods. A \<open>viper\<close> value is the content of one \<open>viper.Viper\<close> object as those methods
  show it; \<open>Sub\<close> gives the content of the new object it returns, \<open>None\<close> when it
  returns nil.
\<close>

datatype viper = Viper
  (AllKeys: "string list")
  (InConfig: "string \<Rightarrow> bool")
  (IsSet: "string \<Rightarrow> bool")
  (GetString: "string \<Rightarrow> string")
  (Sub: "string \<Rightarrow> viper option")

text \<open>A value of a \<open>logrus.Fields\<close> map (\<open>interface{}\<close>): a string, or anything else.\<close>

datatype fvalue = VString string | VOther nat

type_synonym Fields = "string \<rightharpoonup> fvalue"

text \<open>
  Modelled from the spec: the logger type built by \<open>newNamedLogger\<close> is not under
  \<open>src/\<close>. The spec gives the constructor the arguments (name, context fields,
  configuration subtree, parent or nil), the registry tags the logger with a
  back-reference (\<open>l.reg = reg\<close>), and \<open>Configure\<close> applies a settings view to it.
  \<open>configured\<close> lists the arguments of the \<open>Configure\<close> calls the logger has received.
\<close>

record namedLogger =
  lname :: string
  lfields :: ref
  lconfig :: "ref option"
  lparent :: "ref option"
  reg :: "ref option"
  configured :: "ref option list"

text \<open>A \<open>Logger\<close> interface value: nil, or a pointer to a logger object.\<close>

type_synonym Logger = "ref option"

record LoggerRegistry =
  config :: "ref option"
  store :: "(string \<times> Logger) list"

text \<open>\<open>RootName\<close> is the package variable, \<open>''root''\<close> after \<open>init\<close>.\<close>

record world =
  RootName :: string
  vipers :: "viper list"
  fieldmaps :: "Fields list"
  loggers :: "namedLogger list"
  registries :: "LoggerRegistry list"

definition init :: "world" where
  "init = \<lparr>RootName = ''root'', vipers = [], fieldmaps = [], loggers = [], registries = []\<rparr>"

definition deref :: "'a list \<Rightarrow> ref option \<Rightarrow> 'a option" where
  "deref h p = (case p of None \<Rightarrow> None
                | Some a \<Rightarrow> if a < length h then Some (h ! a) else None)"

text \<open>The object a call of \<open>Sub\<close> returns enters the heap; nil stays nil.\<close>

definition allocViper :: "viper option \<Rightarrow> world \<Rightarrow> ref option \<times> world" where
  "allocViper d w = (case d of None \<Rightarrow> (None, w)
     | Some x \<Rightarrow> (Some (length (vipers w)), w\<lparr>vipers := vipers w @ [x]\<rparr>))"

text \<open>\<open>make(logrus.Fields, n)\<close>: a new empty map.\<close>

definition makeFields :: "world \<Rightarrow> ref \<times> world" where
  "makeFields w = (length (fieldmaps w), w\<lparr>fieldmaps := fieldmaps w @ [Map.empty]\<rparr>)"

text \<open>\<open>for kk, vv := range context { fields[kk] = vv }\<close>\<close>

definition copyFields :: "ref \<Rightarrow> Fields \<Rightarrow> world \<Rightarrow> world" where
  "copyFields fa context w =
     w\<lparr>fieldmaps := (fieldmaps w)[fa := (fieldmaps w ! fa) ++ context]\<rparr>"

text \<open>\<open>fields[key] = val\<close>\<close>

definition setField :: "ref \<Rightarrow> string \<Rightarrow> fvalue \<Rightarrow> world \<Rightarrow> world" where
  "setField fa key val w =
     w\<lparr>fieldmaps := (fieldmaps w)[fa := (fieldmaps w ! fa)(key \<mapsto> val)]\<rparr>"

text \<open>Modelled from the spec: \<open>newNamedLogger(name, fields, cfg, parent)\<close> is not under
  \<open>src/\<close>; it constructs a logger bound to that context and that subtree.\<close>

definition newNamedLogger :: "string \<Rightarrow> ref \<Rightarrow> ref option \<Rightarrow> ref option \<Rightarrow> world \<Rightarrow> ref \<times> world" where
  "newNamedLogger nm fa cfg par w =
     (length (loggers w),
      w\<lparr>loggers := loggers w @
         [\<lparr>lname = nm, lfields = fa, lconfig = cfg, lparent = par, reg = None, configured = []\<rparr>]\<rparr>)"

text \<open>\<open>l.reg = reg\<close>\<close>

definition setReg :: "ref \<Rightarrow> ref \<Rightarrow> world \<Rightarrow> world" where
  "setReg l ra w = w\<lparr>loggers := (loggers w)[l := (loggers w ! l)\<lparr>reg := Some ra\<rparr>]\<rparr>"

text \<open>\<open>reg.store[k] = l\<close>\<close>

definition storePut :: "ref \<Rightarrow> string \<Rightarrow> Logger \<Rightarrow> world \<Rightarrow> world" where
  "storePut ra k l w =
     w\<lparr>registries := (registries w)[ra := (registries w ! ra)
         \<lparr>store := AList.update k l (store (registries w ! ra))\<rparr>]\<rparr>"

text \<open>
  Modelled from the spec: \<open>Configure\<close> of the \<open>Logger\<close> interface is not under \<open>src/\<close>;
  it applies the settings view it is given to the logger. A call on the nil interface
  value panics.
\<close>

definition Configure :: "Logger \<Rightarrow> ref option \<Rightarrow> world \<Rightarrow> error + world" where
  "Configure logger cfg w =
     (case deref (loggers w) logger of None \<Rightarrow> Inl NilDeref
      | Some l \<Rightarrow> Inr (w\<lparr>loggers := (loggers w)[the logger :=
            l\<lparr>lconfig := cfg, configured := configured l @ [cfg]\<rparr>]\<rparr>))"

subsection \<open>\<open>NewRegistry\<close>\<close>

text \<open>\<open>c := cfg; if c.InConfig("logging") { c = cfg.Sub("logging") }\<close>\<close>

definition narrow :: "ref option \<Rightarrow> world \<Rightarrow> error + (ref option \<times> world)" where
  "narrow cfg w =
     (case deref (vipers w) cfg of None \<Rightarrow> Inl NilDeref
      | Some cd \<Rightarrow> Inr (if InConfig cd ''logging'' then allocViper (Sub cd ''logging'') w
                       else (cfg, w)))"

text \<open>
  The body of \<open>for _, k := range keys\<close>. \<open>addLoggingDefaults\<close> is not under \<open>src/\<close>: it
  is the parameter \<open>dflt\<close>, the change it makes to the view it is given. With \<open>v\<close> nil
  the iteration panics, at \<open>v.IsSet\<close> at the latest.
\<close>

definition newRegistryBody ::
  "(viper \<Rightarrow> viper) \<Rightarrow> ref \<Rightarrow> ref option \<Rightarrow> Fields \<Rightarrow> string \<Rightarrow> world \<Rightarrow> error + world" where
  "newRegistryBody dflt ra c context k w =
     (let (fa, w1) = makeFields w;
          w2 = copyFields fa context w1
      in case deref (vipers w2) c of None \<Rightarrow> Inl NilDeref
         | Some cd \<Rightarrow>
           let (v, w3) = (if InConfig cd k then allocViper (Sub cd k) w2 else (c, w2))
           in case deref (vipers w3) v of None \<Rightarrow> Inl NilDeref
              | Some vd \<Rightarrow>
                let w4 = w3\<lparr>vipers := (vipers w3)[the v := dflt vd]\<rparr>;
                    w5 = setField fa ''module'' (VString k) w4;
                    w6 = (if IsSet (dflt vd) ''name''
                          then setField fa ''module'' (VString (GetString (dflt vd) ''name'')) w5
                          else w5);
                    (l, w7) = newNamedLogger k fa v None w6;
                    w8 = setReg l ra w7
                in Inr (storePut ra k (Some l) w8))"

fun newRegistryLoop ::
  "(viper \<Rightarrow> viper) \<Rightarrow> ref \<Rightarrow> ref option \<Rightarrow> Fields \<Rightarrow> string list \<Rightarrow> world \<Rightarrow> error + world" where
  "newRegistryLoop dflt ra c context [] w = Inr w"
| "newRegistryLoop dflt ra c context (k # ks) w =
     (case newRegistryBody dflt ra c context k w of Inl e \<Rightarrow> Inl e
      | Inr w' \<Rightarrow> newRegistryLoop dflt ra c context ks w')"

text \<open>
  The content of the narrowed view when the loop has run over the keys \<open>ks\<close>:
  \<open>addLoggingDefaults\<close> fills the view it is given in place, and for a key without a
  section of its own that view is the narrowed view itself.
\<close>

fun narrowedAfter :: "(viper \<Rightarrow> viper) \<Rightarrow> viper \<Rightarrow> string list \<Rightarrow> viper" where
  "narrowedAfter dflt cd [] = cd"
| "narrowedAfter dflt cd (k # ks) =
     narrowedAfter dflt (if InConfig cd k then cd else dflt cd) ks"

text \<open>The body of \<open>if len(keys) == 0\<close>.\<close>

definition newRegistryRoot :: "ref \<Rightarrow> ref option \<Rightarrow> Fields \<Rightarrow> world \<Rightarrow> world" where
  "newRegistryRoot ra c context w =
     (let (fa, w1) = makeFields w;
          w2 = copyFields fa context w1;
          w3 = setField fa ''module'' (VString (RootName w2)) w2;
          (l, w4) = newNamedLogger (RootName w3) fa c None w3;
          w5 = setReg l ra w4
      in storePut ra (RootName w5) (Some l) w5)"

definition NewRegistry ::
  "(viper \<Rightarrow> viper) \<Rightarrow> ref option \<Rightarrow> Fields \<Rightarrow> world \<Rightarrow> error + (ref \<times> world)" where
  "NewRegistry dflt cfg context w =
     (case narrow cfg w of Inl e \<Rightarrow> Inl e
      | Inr (c, w1) \<Rightarrow>
        (case deref (vipers w1) c of None \<Rightarrow> Inl NilDeref
         | Some cd \<Rightarrow>
           let keys = AllKeys cd;
               ra = length (registries w1);
               w2 = w1\<lparr>registries := registries w1 @ [\<lparr>config = c, store = []\<rparr>]\<rparr>
           in case newRegistryLoop dflt ra c context keys w2 of Inl e \<Rightarrow> Inl e
              | Inr w3 \<Rightarrow>
                Inr (ra, if length keys = 0 then newRegistryRoot ra c context w3 else w3)))"

subsection \<open>\<open>Get\<close>, \<open>GetOK\<close>, \<open>Register\<close>, \<open>Root\<close>\<close>

text \<open>The first argument is the case table \<open>strings.ToLower\<close> consults.\<close>

definition GetOK :: "(rune \<Rightarrow> rune) \<Rightarrow> ref \<Rightarrow> string \<Rightarrow> world \<Rightarrow> error + (Logger \<times> bool)" where
  "GetOK tbl r nm w =
     (case deref (registries w) (Some r) of None \<Rightarrow> Inl NilDeref
      | Some rg \<Rightarrow> Inr (case map_of (store rg) (ToLower tbl nm) of
                          None \<Rightarrow> (None, False)
                        | Some l \<Rightarrow> (l, True)))"


definition Register :: "(rune \<Rightarrow> rune) \<Rightarrow> ref \<Rightarrow> string \<Rightarrow> Logger \<Rightarrow> world \<Rightarrow> error + world" where
  "Register tbl r path logger w =
     (case deref (registries w) (Some r) of None \<Rightarrow> Inl NilDeref
      | Some rg \<Rightarrow> Inr (storePut r (ToLower tbl path) logger w))"


subsection \<open>\<open>Reload\<close>\<close>

text \<open>The loop of \<open>findLongestMatchingPath\<close> over \<open>i\<close>, on the content of \<open>cfg\<close>.\<close>

fun findLoop :: "viper \<Rightarrow> string list \<Rightarrow> nat list \<Rightarrow> viper option" where
  "findLoop cd parts [] = None"
| "findLoop cd parts (i # is) =
     (let md = length parts - i;
          k = Join (take md parts) ''.''
      in if IsSet cd k then Sub cd k else findLoop cd parts is)"

text \<open>\<open>Split\<close> never returns an empty list, so the loop runs at least once and a nil
  \<open>cfg\<close> panics at \<open>cfg.IsSet\<close>.\<close>

definition findLongestMatchingPath ::
  "string \<Rightarrow> ref option \<Rightarrow> world \<Rightarrow> error + (ref option \<times> world)" where
  "findLongestMatchingPath path cfg w =
     (let parts = Split path CHR ''.''
      in case deref (vipers w) cfg of None \<Rightarrow> Inl NilDeref
         | Some cd \<Rightarrow> Inr (allocViper (findLoop cd parts [0..<length parts]) w))"

text \<open>\<open>for _, key := range keys { configs[key] = findLongestMatchingPath(key, r.config) }\<close>\<close>

fun resolveAll ::
  "ref option \<Rightarrow> string list \<Rightarrow> (string \<times> ref option) list \<Rightarrow> world
     \<Rightarrow> error + ((string \<times> ref option) list \<times> world)" where
  "resolveAll cfg [] configs w = Inr (configs, w)"
| "resolveAll cfg (key # keys) configs w =
     (case findLongestMatchingPath key cfg w of Inl e \<Rightarrow> Inl e
      | Inr (v, w') \<Rightarrow> resolveAll cfg keys (AList.update key v configs) w')"

text \<open>
  \<open>for _, k := range keys { logger := r.store[k]; if cfg, ok := configs[k]; ok {
  logger.Configure(cfg) } }\<close>. The result is the world when the loop ends, with the
  panic that ended it, if one did.
\<close>

fun configureAll ::
  "ref \<Rightarrow> (string \<times> ref option) list \<Rightarrow> string list \<Rightarrow> world \<Rightarrow> error option \<times> world" where
  "configureAll r configs [] w = (None, w)"
| "configureAll r configs (k # ks) w =
     (let logger = (case map_of (store (registries w ! r)) k of None \<Rightarrow> None | Some l \<Rightarrow> l)
      in case map_of configs k of
           None \<Rightarrow> configureAll r configs ks w
         | Some cfg \<Rightarrow>
             (case Configure logger cfg w of Inl e \<Rightarrow> (Some e, w)
              | Inr w' \<Rightarrow> configureAll r configs ks w'))"

text \<open>The keys of the store, each once, sorted; then the two loops. The result is the
  world when \<open>Reload\<close> ends, with the panic that ended it, if one did.\<close>

definition Reload :: "ref \<Rightarrow> world \<Rightarrow> error option \<times> world" where
  "Reload r w =
     (case deref (registries w) (Some r) of None \<Rightarrow> (Some NilDeref, w)
      | Some rg \<Rightarrow>
        let keys = sort (remdups (map fst (store rg)))
        in case resolveAll (config rg) keys [] w of Inl e \<Rightarrow> (Some e, w)
           | Inr (configs, w1) \<Rightarrow> configureAll r configs keys w1)"

subsection \<open>Example configurations\<close>

text \<open>An empty configuration: no key, nothing set.\<close>

definition leaf :: viper where
  "leaf = Viper [] (\<lambda>_. False) (\<lambda>_. False) (\<lambda>_. []) (\<lambda>_. None)"

text \<open>Settings at \<open>a\<close> and \<open>a.b.c\<close> and nowhere else.\<close>

definition subA :: viper where
  "subA = Viper [''level''] (\<lambda>k. k = ''level'') (\<lambda>k. k = ''level'') (\<lambda>_. ''info'') (\<lambda>_. None)"

definition subABC :: viper where
  "subABC = Viper [''output''] (\<lambda>k. k = ''output'') (\<lambda>k. k = ''output'') (\<lambda>_. ''stderr'') (\<lambda>_. None)"

definition cfgPrefix :: viper where
  "cfgPrefix = Viper [''a'', ''a.b.c'']
     (\<lambda>k. k = ''a'' \<or> k = ''a.b.c'')
     (\<lambda>k. k = ''a'' \<or> k = ''a.b.c'')
     (\<lambda>_. [])
     (\<lambda>k. if k = ''a'' then Some subA else if k = ''a.b.c'' then Some subABC else None)"

definition wPrefix :: world where
  "wPrefix = init\<lparr>vipers := [cfgPrefix]\<rparr>"

text \<open>A registry with an empty store.\<close>

definition wReg :: world where
  "wReg = init\<lparr>vipers := [leaf], registries := [\<lparr>config = Some 0, store = []\<rparr>]\<rparr>"

text \<open>The empty configuration on the heap, with the default and with a capitalised
  root name, and the registry \<open>NewRegistry\<close> builds from the first.\<close>

definition wEmpty :: world where
  "wEmpty = init\<lparr>vipers := [leaf]\<rparr>"

definition wRoot :: world where
  "wRoot = \<lparr>RootName = ''root'', vipers = [leaf],
     fieldmaps = [[''module'' \<mapsto> VString ''root'']],
     loggers = [\<lparr>lname = ''root'', lfields = 0, lconfig = Some 0, lparent = None,
                 reg = Some 0, configured = []\<rparr>],
     registries = [\<lparr>config = Some 0, store = [(''root'', Some 0)]\<rparr>]\<rparr>"

definition wUpper :: world where
  "wUpper = init\<lparr>RootName := ''Root'', vipers := [leaf]\<rparr>"

text \<open>A case table that maps \<open>U+00C9\<close> to \<open>U+00E9\<close>, and the empty configuration with
  the root name \<open>U+00C9\<close>, in UTF-8 the bytes \<open>C3 89\<close>.\<close>

definition tblAccent :: "rune \<Rightarrow> rune" where
  "tblAccent r = (if r = 201 then 233 else r)"











section \<open>Properties\<close>

subsection \<open>Strings\<close>

lemma caseEqChar_lowerChar: "caseEqChar c d \<Longrightarrow> lowerChar c = lowerChar d"
proof -
  assume h: "caseEqChar c d"
  have up: "lowerChar x = y"
    if "isUpperA x" "isLowerA y" "(of_char y :: nat) = of_char x + 32" for x y
  proof -
    have "char_of ((of_char x :: nat) + 32) = char_of (of_char y :: nat)"
      by (simp only: that(3))
    then show ?thesis using that(1) by (simp add: lowerChar_def)
  qed
  have low: "lowerChar y = y" if "isLowerA y" for y
    using that by (simp add: lowerChar_def isLowerA_def isUpperA_def)
  from h consider "c = d"
    | "isUpperA c" "isLowerA d" "(of_char d :: nat) = of_char c + 32"
    | "isLowerA c" "isUpperA d" "(of_char c :: nat) = of_char d + 32"
    unfolding caseEqChar_def by blast
  then show ?thesis
  proof cases
    case 1 then show ?thesis by simp
  next
    case 2 then show ?thesis using up[of c d] low[of d] by simp
  next
    case 3 then show ?thesis using up[of d c] low[of c] by simp
  qed
qed

lemma caseEq_lowerChar: "caseEq s t \<Longrightarrow> map lowerChar s = map lowerChar t"
  unfolding caseEq_def
  by (induction s t rule: list_all2_induct) (auto dest: caseEqChar_lowerChar)

lemma of_char_lowerChar:
  "(of_char (lowerChar c) :: nat) = (if isUpperA c then of_char c + 32 else of_char c)"
  by (simp add: lowerChar_def isUpperA_def)

lemma lowerChar_ascii: "(of_char (lowerChar c) :: nat) < 128 \<longleftrightarrow> (of_char c :: nat) < 128"
  by (auto simp: of_char_lowerChar isUpperA_def)

lemma lowerChar_high: "128 \<le> (of_char c :: nat) \<Longrightarrow> lowerChar c = c"
  by (simp add: lowerChar_def isUpperA_def)

lemma tailByte_lowerChar: "128 \<le> fst rg \<Longrightarrow> tailByte rg (lowerChar c) = tailByte rg c"
  by (cases "128 \<le> (of_char c :: nat)")
     (auto simp: lowerChar_high tailByte_def of_char_lowerChar isUpperA_def)

lemma tailBytes_lowerChar:
  "\<forall>rg \<in> set rgs. 128 \<le> fst rg \<Longrightarrow> tailBytes rgs (map lowerChar bs) = tailBytes rgs bs"
  by (induction rgs bs rule: tailBytes.induct) (simp_all add: tailByte_lowerChar split: option.splits)

lemma first_ranges: "first x = Some (h, rgs) \<Longrightarrow> \<forall>rg \<in> set rgs. 128 \<le> fst rg"
  by (auto simp: first_def split: if_splits)

lemma Decode_ascii: "(of_char b :: nat) < 128 \<Longrightarrow> DecodeRuneInString (b # bs) = (of_char b, 1)"
  by (simp add: DecodeRuneInString_def)

lemma Decode_high_lowerChar:
  assumes "128 \<le> (of_char b :: nat)"
  shows "DecodeRuneInString (b # map lowerChar bs) = DecodeRuneInString (b # bs)"
proof (cases "first (of_char b)")
  case None
  then show ?thesis using assms by (simp add: DecodeRuneInString_def)
next
  case (Some p)
  obtain h rgs where p: "p = (h, rgs)" by (cases p)
  from Some p have "tailBytes rgs (map lowerChar bs) = tailBytes rgs bs"
    using first_ranges[of "of_char b" h rgs] tailBytes_lowerChar[of rgs bs] by simp
  with Some p show ?thesis using assms by (simp add: DecodeRuneInString_def)
qed

lemma Decode_lowerChar:
  "DecodeRuneInString (map lowerChar (b # bs)) =
     (if (of_char b :: nat) < 128 then (of_char (lowerChar b), 1) else DecodeRuneInString (b # bs))"
proof (cases "(of_char b :: nat) < 128")
  case True
  then have "(of_char (lowerChar b) :: nat) < 128" by (simp add: lowerChar_ascii)
  with True show ?thesis by (simp add: Decode_ascii)
next
  case False
  then have "lowerChar b = b" by (simp add: lowerChar_high)
  with False Decode_high_lowerChar[of b bs] show ?thesis by simp
qed

lemma unicodeToLower_lowerChar:
  assumes "(of_char b :: nat) < 128"
  shows "unicodeToLower tbl (of_char (lowerChar b)) = unicodeToLower tbl (of_char b)"
proof (cases "isUpperA b")
  case True
  then have n: "65 \<le> (of_char b :: nat)" "(of_char b :: nat) \<le> 90"
    by (simp_all add: isUpperA_def)
  have "(of_char (lowerChar b) :: nat) = of_char b + 32"
    using True by (simp add: of_char_lowerChar)
  then show ?thesis using n by (simp add: unicodeToLower_def)
next
  case False
  then show ?thesis by (simp add: lowerChar_def)
qed

lemma lowerChar_idem: "lowerChar (lowerChar c) = lowerChar c"
proof (cases "isUpperA c")
  case True
  then have "(of_char (lowerChar c) :: nat) = of_char c + 32"
    by (simp add: of_char_lowerChar)
  with True have "\<not> isUpperA (lowerChar c)" by (simp add: isUpperA_def)
  then show ?thesis by (simp add: lowerChar_def[of "lowerChar c"])
next
  case False
  then show ?thesis by (simp add: lowerChar_def)
qed

lemma all_ascii_lowerChar:
  "list_all (\<lambda>c. (of_char c :: nat) < 128) (map lowerChar s)
     = list_all (\<lambda>c. (of_char c :: nat) < 128) s"
  by (induction s) (simp_all add: lowerChar_ascii)

lemma Decode_lowerChar_width:
  "snd (DecodeRuneInString (map lowerChar (b # bs))) = snd (DecodeRuneInString (b # bs))"
proof (cases "(of_char b :: nat) < 128")
  case True
  then show ?thesis by (simp only: Decode_lowerChar Decode_ascii if_True snd_conv)
next
  case False
  then show ?thesis by (simp only: Decode_lowerChar if_False)
qed

lemma Decode_lowerChar_rune:
  "unicodeToLower tbl (fst (DecodeRuneInString (map lowerChar (b # bs))))
     = unicodeToLower tbl (fst (DecodeRuneInString (b # bs)))"
proof (cases "(of_char b :: nat) < 128")
  case True
  then show ?thesis
    by (simp only: Decode_lowerChar Decode_ascii if_True fst_conv unicodeToLower_lowerChar)
next
  case False
  then show ?thesis by (simp only: Decode_lowerChar if_False)
qed

lemma stringsMap_lowerChar:
  "stringsMap (unicodeToLower tbl) (map lowerChar s) = stringsMap (unicodeToLower tbl) s"
proof (induction "unicodeToLower tbl" s rule: stringsMap.induct)
  case 1
  then show ?case by simp
next
  case (2 b bs)
  let ?f = "unicodeToLower tbl"
  let ?d = "DecodeRuneInString (b # bs)"
  let ?d' = "DecodeRuneInString (map lowerChar (b # bs))"
  have w: "snd ?d' = snd ?d" by (rule Decode_lowerChar_width)
  have r: "?f (fst ?d') = ?f (fst ?d)" by (rule Decode_lowerChar_rune)
  have "stringsMap ?f (map lowerChar (b # bs))
          = stringsMap ?f (lowerChar b # map lowerChar bs)"
    by (simp only: list.map)
  also have "\<dots> = EncodeRune (?f (fst (DecodeRuneInString (lowerChar b # map lowerChar bs))))
          @ stringsMap ?f (drop (snd (DecodeRuneInString (lowerChar b # map lowerChar bs)) - 1)
              (map lowerChar bs))"
    by (simp only: stringsMap.simps)
  also have "\<dots> = EncodeRune (?f (fst ?d')) @ stringsMap ?f (drop (snd ?d' - 1) (map lowerChar bs))"
    by (simp only: list.map)
  also have "\<dots> = EncodeRune (?f (fst ?d)) @ stringsMap ?f (map lowerChar (drop (snd ?d - 1) bs))"
    by (simp only: w r drop_map)
  also have "\<dots> = EncodeRune (?f (fst ?d)) @ stringsMap ?f (drop (snd ?d - 1) bs)"
    by (simp only: "2.hyps")
  also have "\<dots> = stringsMap ?f (b # bs)"
    by (simp only: stringsMap.simps)
  finally show ?case .
qed

lemma ToLower_lowerChar: "ToLower tbl (map lowerChar s) = ToLower tbl s"
proof -
  have "map lowerChar (map lowerChar s) = map lowerChar s"
    by (simp add: lowerChar_idem)
  then show ?thesis
    by (simp only: ToLower_def all_ascii_lowerChar stringsMap_lowerChar)
qed

lemma caseEq_ToLower: "caseEq s t \<Longrightarrow> ToLower tbl s = ToLower tbl t"
proof -
  assume "caseEq s t"
  then have "map lowerChar s = map lowerChar t" by (rule caseEq_lowerChar)
  then have "ToLower tbl (map lowerChar s) = ToLower tbl (map lowerChar t)" by simp
  then show ?thesis by (simp only: ToLower_lowerChar)
qed

subsection \<open>The store\<close>

lemma storePut_lookup:
  "r < length (registries w) \<Longrightarrow>
   map_of (store (registries (storePut r k l w) ! r)) k' =
     (if k' = k then Some l else map_of (store (registries w ! r)) k')"
  by (simp add: storePut_def update_conv')

lemma storePut_length [simp]: "length (registries (storePut r k l w)) = length (registries w)"
  by (simp add: storePut_def)

subsection \<open>Longest matching path\<close>

lemma findLoop_none:
  "(\<forall>i \<in> set is. \<not> IsSet cd (Join (take (length parts - i) parts) ''.'')) \<Longrightarrow>
   findLoop cd parts is = None"
  by (induction "is") (simp_all add: Let_def)

lemma findLoop_first:
  "(\<forall>i \<in> set xs. \<not> IsSet cd (Join (take (length parts - i) parts) ''.'')) \<Longrightarrow>
   IsSet cd (Join (take (length parts - i) parts) ''.'') \<Longrightarrow>
   findLoop cd parts (xs @ i # ys) = Sub cd (Join (take (length parts - i) parts) ''.'')"
  by (induction xs) (simp_all add: Let_def)

lemma findLoop_longest:
  assumes "1 \<le> m" "m \<le> length parts" "IsSet cd (Join (take m parts) ''.'')"
    and "\<forall>j. m < j \<and> j \<le> length parts \<longrightarrow> \<not> IsSet cd (Join (take j parts) ''.'')"
  shows "findLoop cd parts [0..<length parts] = Sub cd (Join (take m parts) ''.'')"
proof -
  let ?n = "length parts"
  have split: "[0..<?n] = [0..<?n - m] @ (?n - m) # [Suc (?n - m)..<?n]"
  proof -
    have "[0..<(?n - m) + m] = [0..<?n - m] @ [?n - m..<(?n - m) + m]"
      by (rule upt_add_eq_append) simp
    moreover have "(?n - m) + m = ?n" using assms(2) by simp
    moreover have "[?n - m..<?n] = (?n - m) # [Suc (?n - m)..<?n]"
      using assms(1,2) by (simp add: upt_conv_Cons)
    ultimately show ?thesis by simp
  qed
  have pre: "\<forall>i \<in> set [0..<?n - m]. \<not> IsSet cd (Join (take (?n - i) parts) ''.'')"
    using assms(4) by auto
  have at: "IsSet cd (Join (take (?n - (?n - m)) parts) ''.'')"
    using assms(2,3) by simp
  show ?thesis
    using findLoop_first[OF pre at, of "[Suc (?n - m)..<?n]"] split assms(2) by simp
qed

lemma findLoop_unset:
  assumes "\<forall>m. 1 \<le> m \<and> m \<le> length parts \<longrightarrow> \<not> IsSet cd (Join (take m parts) ''.'')"
  shows "findLoop cd parts [0..<length parts] = None"
proof (rule findLoop_none)
  show "\<forall>i \<in> set [0..<length parts]. \<not> IsSet cd (Join (take (length parts - i) parts) ''.'')"
    using assms by auto
qed

lemma Join_Cons_Cons: "Join ((c # p) # ps) sep = c # Join (p # ps) sep"
  by (cases ps) simp_all

lemma Split_not_Nil: "Split s sep \<noteq> []"
  by (induction s) (simp_all split: list.splits)

lemma Join_Split: "Join (Split s sep) [sep] = s"
proof (induction s)
  case Nil
  then show ?case by simp
next
  case (Cons c cs)
  obtain p ps where sp: "Split cs sep = p # ps"
    using Split_not_Nil[of cs sep] by (cases "Split cs sep") auto
  show ?case
  proof (cases "c = sep")
    case True
    then show ?thesis using Cons sp by simp
  next
    case False
    then show ?thesis using Cons sp by (simp add: Join_Cons_Cons del: Join.simps)
  qed
qed

text \<open>
  C2. Path resolution splits the key on \<open>.\<close> and tests the prefixes of the segment
  sequence from the full one (which is the key itself) down to the first segment alone:
  it returns \<open>Sub\<close> of the longest prefix that \<open>IsSet\<close>, and nil when no prefix is set.
  With settings at \<open>a\<close> and \<open>a.b.c\<close> and none at \<open>a.b\<close> and \<open>a.b.c.d\<close>, the key
  \<open>a.b.c.d\<close> resolves to the subtree at \<open>a.b.c\<close> and the key \<open>a.b\<close> to the subtree at
  \<open>a\<close>.
\<close>

theorem findLongestMatchingPath_longest_prefix:
  assumes "deref (vipers w) cfg = Some cd"
  shows "Join (take (length (Split path CHR ''.'')) (Split path CHR ''.'')) ''.'' = path
    \<and> (\<forall>m. 1 \<le> m \<and> m \<le> length (Split path CHR ''.'')
            \<and> IsSet cd (Join (take m (Split path CHR ''.'')) ''.'')
            \<and> (\<forall>j. m < j \<and> j \<le> length (Split path CHR ''.'')
                   \<longrightarrow> \<not> IsSet cd (Join (take j (Split path CHR ''.'')) ''.''))
          \<longrightarrow> findLongestMatchingPath path cfg w
                = Inr (allocViper (Sub cd (Join (take m (Split path CHR ''.'')) ''.'')) w))
    \<and> ((\<forall>m. 1 \<le> m \<and> m \<le> length (Split path CHR ''.'')
            \<longrightarrow> \<not> IsSet cd (Join (take m (Split path CHR ''.'')) ''.''))
          \<longrightarrow> findLongestMatchingPath path cfg w = Inr (None, w))
    \<and> (IsSet cd ''a'' \<and> IsSet cd ''a.b.c'' \<and> \<not> IsSet cd ''a.b'' \<and> \<not> IsSet cd ''a.b.c.d''
          \<longrightarrow> findLongestMatchingPath ''a.b.c.d'' cfg w = Inr (allocViper (Sub cd ''a.b.c'') w)
            \<and> findLongestMatchingPath ''a.b'' cfg w = Inr (allocViper (Sub cd ''a'') w))"
proof -
  have full: "Join (take (length (Split path CHR ''.'')) (Split path CHR ''.'')) ''.'' = path"
    using Join_Split[of path "CHR ''.''"] by simp
  have found: "findLongestMatchingPath p cfg w
                 = Inr (allocViper (Sub cd (Join (take m (Split p CHR ''.'')) ''.'')) w)"
    if "1 \<le> m" "m \<le> length (Split p CHR ''.'')"
       "IsSet cd (Join (take m (Split p CHR ''.'')) ''.'')"
       "\<forall>j. m < j \<and> j \<le> length (Split p CHR ''.'')
            \<longrightarrow> \<not> IsSet cd (Join (take j (Split p CHR ''.'')) ''.'')" for p m
    using assms findLoop_longest[OF that]
    by (simp add: findLongestMatchingPath_def)
  have unset: "findLongestMatchingPath path cfg w = Inr (None, w)"
    if "\<forall>m. 1 \<le> m \<and> m \<le> length (Split path CHR ''.'')
            \<longrightarrow> \<not> IsSet cd (Join (take m (Split path CHR ''.'')) ''.'')"
    using assms findLoop_unset[OF that]
    by (simp add: findLongestMatchingPath_def allocViper_def)
  have ex: "findLongestMatchingPath ''a.b.c.d'' cfg w = Inr (allocViper (Sub cd ''a.b.c'') w)
            \<and> findLongestMatchingPath ''a.b'' cfg w = Inr (allocViper (Sub cd ''a'') w)"
    if h: "IsSet cd ''a''" "IsSet cd ''a.b.c''" "\<not> IsSet cd ''a.b''" "\<not> IsSet cd ''a.b.c.d''"
  proof -
    have j4: "j = 4" if "3 < j" "j \<le> 4" for j :: nat using that by simp
    have j2: "j = 2" if "1 < j" "j \<le> 2" for j :: nat using that by simp
    have "findLongestMatchingPath ''a.b.c.d'' cfg w
            = Inr (allocViper (Sub cd (Join (take 3 (Split ''a.b.c.d'' CHR ''.'')) ''.'')) w)"
      by (rule found) (use h in \<open>auto dest!: j4\<close>)
    moreover have "findLongestMatchingPath ''a.b'' cfg w
            = Inr (allocViper (Sub cd (Join (take 1 (Split ''a.b'' CHR ''.'')) ''.'')) w)"
      by (rule found) (use h in \<open>auto dest!: j2\<close>)
    ultimately show ?thesis by simp
  qed
  from full found unset ex show ?thesis by blast
qed

theorem findLongestMatchingPath_longest_prefix_witness:
  "deref (vipers wPrefix) (Some 0) = Some cfgPrefix
   \<and> findLongestMatchingPath ''a.b.c.d'' (Some 0) wPrefix
       = Inr (Some 1, wPrefix\<lparr>vipers := [cfgPrefix, subABC]\<rparr>)
   \<and> findLongestMatchingPath ''a.b'' (Some 0) wPrefix
       = Inr (Some 1, wPrefix\<lparr>vipers := [cfgPrefix, subA]\<rparr>)
   \<and> findLongestMatchingPath ''x'' (Some 0) wPrefix = Inr (None, wPrefix)"
proof -
  have h: "deref (vipers wPrefix) (Some 0) = Some cfgPrefix"
    by (simp add: deref_def wPrefix_def init_def)
  have s: "IsSet cfgPrefix ''a'' \<and> IsSet cfgPrefix ''a.b.c''
           \<and> \<not> IsSet cfgPrefix ''a.b'' \<and> \<not> IsSet cfgPrefix ''a.b.c.d''"
    by (simp add: cfgPrefix_def)
  have m1: "m = 1" if "1 \<le> m" "m \<le> 1" for m :: nat using that by simp
  have u: "\<forall>m. 1 \<le> m \<and> m \<le> length (Split ''x'' CHR ''.'')
             \<longrightarrow> \<not> IsSet cfgPrefix (Join (take m (Split ''x'' CHR ''.'')) ''.'')"
    by (auto dest!: m1 simp: cfgPrefix_def)
  have a: "findLongestMatchingPath ''a.b.c.d'' (Some 0) wPrefix
             = Inr (allocViper (Sub cfgPrefix ''a.b.c'') wPrefix)
           \<and> findLongestMatchingPath ''a.b'' (Some 0) wPrefix
             = Inr (allocViper (Sub cfgPrefix ''a'') wPrefix)"
    using findLongestMatchingPath_longest_prefix [OF h, of "''x''"] s by blast
  have b: "findLongestMatchingPath ''x'' (Some 0) wPrefix = Inr (None, wPrefix)"
    using findLongestMatchingPath_longest_prefix [OF h, of "''x''"] u by blast
  have c: "allocViper (Sub cfgPrefix ''a.b.c'') wPrefix = (Some 1, wPrefix\<lparr>vipers := [cfgPrefix, subABC]\<rparr>)"
    by (simp add: allocViper_def cfgPrefix_def wPrefix_def init_def)
  have d: "allocViper (Sub cfgPrefix ''a'') wPrefix = (Some 1, wPrefix\<lparr>vipers := [cfgPrefix, subA]\<rparr>)"
    by (simp add: allocViper_def cfgPrefix_def wPrefix_def init_def)
  from h a b c d show ?thesis by simp
qed

subsection \<open>Registration and lookup\<close>

text \<open>
  C7. After \<open>Register(path, l)\<close>, \<open>GetOK(name)\<close> returns \<open>(l, true)\<close> for every name equal
  to \<open>path\<close> up to ASCII case; a later \<open>Register\<close> on a path equal to \<open>path\<close> up to case
  replaces the entry, and \<open>GetOK\<close> then returns the new logger.
\<close>

theorem Register_GetOK_roundtrip:
  assumes "r < length (registries w)" and "caseEq nm path"
  shows "\<exists>w1. Register tbl r path l w = Inr w1 \<and> GetOK tbl r nm w1 = Inr (l, True) \<and>
           (\<forall>path' l'. caseEq path' path \<longrightarrow>
              (\<exists>w2. Register tbl r path' l' w1 = Inr w2 \<and> GetOK tbl r nm w2 = Inr (l', True)))"
proof -
  let ?w1 = "storePut r (ToLower tbl path) l w"
  have k: "ToLower tbl nm = ToLower tbl path" using assms(2) by (rule caseEq_ToLower)
  have r1: "Register tbl r path l w = Inr ?w1"
    using assms(1) by (simp add: Register_def deref_def)
  have g1: "GetOK tbl r nm ?w1 = Inr (l, True)"
    using assms(1) by (simp add: GetOK_def deref_def storePut_lookup k)
  have rep: "\<exists>w2. Register tbl r path' l' ?w1 = Inr w2 \<and> GetOK tbl r nm w2 = Inr (l', True)"
    if "caseEq path' path" for path' l'
  proof -
    have k': "ToLower tbl path' = ToLower tbl path" using that by (rule caseEq_ToLower)
    have "Register tbl r path' l' ?w1 = Inr (storePut r (ToLower tbl path') l' ?w1)"
      using assms(1) by (simp add: Register_def deref_def)
    moreover have "GetOK tbl r nm (storePut r (ToLower tbl path') l' ?w1) = Inr (l', True)"
      using assms(1) by (simp add: GetOK_def deref_def storePut_lookup k k')
    ultimately show ?thesis by blast
  qed
  from r1 g1 rep show ?thesis by blast
qed

theorem Register_GetOK_roundtrip_witness:
  "0 < length (registries wReg) \<and> caseEq ''x'' ''X'' \<and>
   (\<exists>w1. Register tblAccent 0 ''X'' (Some 7) wReg = Inr w1
       \<and> GetOK tblAccent 0 ''x'' w1 = Inr (Some 7, True) \<and>
     (\<exists>w2. Register tblAccent 0 ''x'' (Some 8) w1 = Inr w2
       \<and> GetOK tblAccent 0 ''x'' w2 = Inr (Some 8, True)))"
proof -
  have h1: "0 < length (registries wReg)" by (simp add: wReg_def init_def)
  have h2: "caseEq ''x'' ''X''"
    by (simp add: caseEq_def caseEqChar_def isUpperA_def isLowerA_def)
  from Register_GetOK_roundtrip [OF h1 h2, where l = "Some 7" and tbl = tblAccent] h1 h2
  show ?thesis by blast
qed

subsection \<open>The root logger\<close>

lemma narrow_RootName: "narrow cfg w = Inr (c, w1) \<Longrightarrow> RootName w1 = RootName w"
  by (auto simp: narrow_def allocViper_def split: option.splits if_splits)

lemma NewRegistry_root:
  assumes "narrow cfg w = Inr (c, w1)" "deref (vipers w1) c = Some cd" "AllKeys cd = []"
  shows "NewRegistry dflt cfg context w = Inr (length (registries w1),
           w1\<lparr>fieldmaps := fieldmaps w1 @ [context(''module'' \<mapsto> VString (RootName w))],
              loggers := loggers w1 @ [\<lparr>lname = RootName w, lfields = length (fieldmaps w1),
                 lconfig = c, lparent = None, reg = Some (length (registries w1)),
                 configured = []\<rparr>],
              registries := registries w1 @
                 [\<lparr>config = c, store = [(RootName w, Some (length (loggers w1)))]\<rparr>]\<rparr>)"
  using assms narrow_RootName[OF assms(1)]
  by (simp add: NewRegistry_def newRegistryRoot_def makeFields_def copyFields_def
      setField_def newNamedLogger_def setReg_def storePut_def Let_def)

text \<open>
  C5. When the narrowed view declares no key, \<open>NewRegistry\<close> returns a registry whose
  store has exactly one entry. Its key is the current \<open>RootName\<close>; its logger is backed
  by the whole narrowed view (the same object the registry keeps as \<open>config\<close>, left as it
  was) and has the baseline context with \<open>module\<close> set to \<open>RootName\<close>.
\<close>

theorem NewRegistry_no_modules:
  assumes "narrow cfg w = Inr (c, w1)" "deref (vipers w1) c = Some cd" "AllKeys cd = []"
  shows "\<exists>r w' la. NewRegistry dflt cfg context w = Inr (r, w')
     \<and> r < length (registries w') \<and> RootName w' = RootName w
     \<and> store (registries w' ! r) = [(RootName w, Some la)]
     \<and> la < length (loggers w')
     \<and> lname (loggers w' ! la) = RootName w
     \<and> config (registries w' ! r) = c
     \<and> lconfig (loggers w' ! la) = c
     \<and> deref (vipers w') c = Some cd
     \<and> lfields (loggers w' ! la) < length (fieldmaps w')
     \<and> fieldmaps w' ! lfields (loggers w' ! la) = context(''module'' \<mapsto> VString (RootName w))"
  using NewRegistry_root[OF assms, of dflt "context"] assms(2) narrow_RootName[OF assms(1)]
  by simp

theorem NewRegistry_no_modules_witness:
  "narrow (Some 0) wEmpty = Inr (Some 0, wEmpty) \<and> deref (vipers wEmpty) (Some 0) = Some leaf
   \<and> AllKeys leaf = []
   \<and> (\<exists>r w' la. NewRegistry id (Some 0) Map.empty wEmpty = Inr (r, w')
     \<and> store (registries w' ! r) = [(''root'', Some la)]
     \<and> lconfig (loggers w' ! la) = Some 0
     \<and> fieldmaps w' ! lfields (loggers w' ! la) = [''module'' \<mapsto> VString ''root''])"
proof -
  have h1: "narrow (Some 0) wEmpty = Inr (Some 0, wEmpty)"
    by (simp add: narrow_def deref_def wEmpty_def init_def leaf_def)
  have h2: "deref (vipers wEmpty) (Some 0) = Some leaf"
    by (simp add: deref_def wEmpty_def init_def)
  have h3: "AllKeys leaf = []" by (simp add: leaf_def)
  have rn: "RootName wEmpty = ''root''" by (simp add: wEmpty_def init_def)
  from NewRegistry_no_modules [OF h1 h2 h3, of id Map.empty] h1 h2 h3 rn
  show ?thesis by auto
qed


lemma ToLower_Root: "ToLower tbl ''Root'' = ''root''"
  by (simp add: ToLower_def lowerChar_def isUpperA_def) code_simp



text \<open>
  C4. The store keys are not all lowercase after construction: with \<open>RootName\<close> set to
  \<open>Root\<close> and an empty configuration, \<open>NewRegistry\<close> stores the root logger under the
  key \<open>Root\<close>, which is not its lowercase form.
\<close>

theorem NewRegistry_stores_RootName_verbatim:
  "NewRegistry id (Some 0) Map.empty wUpper
     = Inr (0, wUpper\<lparr>fieldmaps := [[''module'' \<mapsto> VString ''Root'']],
              loggers := [\<lparr>lname = ''Root'', lfields = 0, lconfig = Some 0, lparent = None,
                            reg = Some 0, configured = []\<rparr>],
              registries := [\<lparr>config = Some 0, store = [(''Root'', Some 0)]\<rparr>]\<rparr>)
   \<and> ToLower tbl ''Root'' \<noteq> ''Root''"
proof -
  have h1: "narrow (Some 0) wUpper = Inr (Some 0, wUpper)"
    by (simp add: narrow_def deref_def wUpper_def init_def leaf_def)
  have h2: "deref (vipers wUpper) (Some 0) = Some leaf"
    by (simp add: deref_def wUpper_def init_def)
  have h3: "AllKeys leaf = []" by (simp add: leaf_def)
  show ?thesis
    using NewRegistry_root[OF h1 h2 h3, of id Map.empty]
    by (simp add: wUpper_def init_def ToLower_Root)
qed

text \<open>
  C1. A key without any set prefix is not skipped by \<open>Reload\<close>: the registry built from
  the empty configuration holds the root logger under \<open>root\<close>, no prefix of \<open>root\<close> is
  set, and \<open>Reload\<close> calls \<open>Configure\<close> on that logger with nil, which replaces the
  configuration the logger had.
\<close>

theorem Reload_configures_with_nil:
  "NewRegistry id (Some 0) Map.empty wEmpty = Inr (0, wRoot)
   \<and> store (registries wRoot ! 0) = [(''root'', Some 0)]
   \<and> \<not> IsSet (vipers wRoot ! 0) ''root''
   \<and> configured (loggers wRoot ! 0) = []
   \<and> lconfig (loggers wRoot ! 0) = Some 0
   \<and> fst (Reload 0 wRoot) = None
   \<and> configured (loggers (snd (Reload 0 wRoot)) ! 0) = [None]
   \<and> lconfig (loggers (snd (Reload 0 wRoot)) ! 0) = None"
proof -
  have h1: "narrow (Some 0) wEmpty = Inr (Some 0, wEmpty)"
    by (simp add: narrow_def deref_def wEmpty_def init_def leaf_def)
  have h2: "deref (vipers wEmpty) (Some 0) = Some leaf"
    by (simp add: deref_def wEmpty_def init_def)
  have h3: "AllKeys leaf = []" by (simp add: leaf_def)
  have a: "NewRegistry id (Some 0) Map.empty wEmpty = Inr (0, wRoot)"
    using NewRegistry_root[OF h1 h2 h3, of id Map.empty]
    by (simp add: wEmpty_def wRoot_def init_def)
  have r: "Reload 0 wRoot = (None, wRoot\<lparr>loggers := [\<lparr>lname = ''root'', lfields = 0, lconfig = None, lparent = None,
                 reg = Some 0, configured = [None]\<rparr>]\<rparr>)"
    by (simp add: Reload_def wRoot_def deref_def findLongestMatchingPath_def leaf_def
        allocViper_def Configure_def Let_def)
  show ?thesis using a r by (simp add: wRoot_def leaf_def)
qed

subsection \<open>Reload leaves the store alone\<close>

lemma allocViper_frame:
  "allocViper d w = (v, w') \<Longrightarrow>
   registries w' = registries w \<and> loggers w' = loggers w \<and> fieldmaps w' = fieldmaps w
   \<and> RootName w' = RootName w"
  by (auto simp: allocViper_def split: option.splits)

lemma findLongestMatchingPath_frame:
  "findLongestMatchingPath p cfg w = Inr (v, w') \<Longrightarrow>
   registries w' = registries w \<and> loggers w' = loggers w \<and> fieldmaps w' = fieldmaps w
   \<and> RootName w' = RootName w"
  by (auto simp: findLongestMatchingPath_def Let_def split: option.splits dest: allocViper_frame)

lemma resolveAll_frame:
  "resolveAll cfg ks configs w = Inr (configs', w') \<Longrightarrow>
   registries w' = registries w \<and> loggers w' = loggers w \<and> fieldmaps w' = fieldmaps w
   \<and> RootName w' = RootName w"
proof (induction ks arbitrary: configs w)
  case Nil
  then show ?case by simp
next
  case (Cons k ks)
  from Cons.prems obtain v w1 where
    f: "findLongestMatchingPath k cfg w = Inr (v, w1)" and
    r: "resolveAll cfg ks (AList.update k v configs) w1 = Inr (configs', w')"
    by (auto split: sum.splits)
  from Cons.IH[OF r] findLongestMatchingPath_frame[OF f] show ?case by simp
qed

lemma Configure_frame:
  "Configure l cfg w = Inr w' \<Longrightarrow>
   registries w' = registries w \<and> fieldmaps w' = fieldmaps w \<and> vipers w' = vipers w
   \<and> RootName w' = RootName w \<and> length (loggers w') = length (loggers w)
   \<and> map lname (loggers w') = map lname (loggers w)
   \<and> map lfields (loggers w') = map lfields (loggers w)"
  by (auto simp: Configure_def deref_def map_update list_update_same_conv
      split: option.splits if_splits)

lemma configureAll_frame:
  "configureAll r configs ks w = (e, w') \<Longrightarrow>
   registries w' = registries w \<and> fieldmaps w' = fieldmaps w \<and> vipers w' = vipers w
   \<and> RootName w' = RootName w \<and> length (loggers w') = length (loggers w)
   \<and> map lname (loggers w') = map lname (loggers w)
   \<and> map lfields (loggers w') = map lfields (loggers w)"
proof (induction ks arbitrary: w)
  case Nil
  then show ?case by simp
next
  case (Cons k ks)
  show ?case
  proof (cases "map_of configs k")
    case None
    with Cons.prems have "configureAll r configs ks w = (e, w')" by (simp add: Let_def)
    from Cons.IH[OF this] show ?thesis .
  next
    case (Some cfg)
    let ?logger = "case map_of (store (registries w ! r)) k of None \<Rightarrow> None | Some l \<Rightarrow> l"
    show ?thesis
    proof (cases "Configure ?logger cfg w")
      case (Inl err)
      with Some Cons.prems show ?thesis by (simp add: Let_def)
    next
      case (Inr w1)
      with Some Cons.prems have "configureAll r configs ks w1 = (e, w')" by (simp add: Let_def)
      from Cons.IH[OF this] Configure_frame[OF Inr] show ?thesis by simp
    qed
  qed
qed

text \<open>
  C6. \<open>Reload\<close> never adds, removes or replaces a store entry: whether it returns or
  panics, every registry is as before (so the store of \<open>r\<close> has the same keys bound to the
  same logger instances), and the logger objects are the same ones, with their names and
  context maps; only their configuration is touched.
\<close>

theorem Reload_keeps_store:
  "registries (snd (Reload r w)) = registries w
   \<and> store (registries (snd (Reload r w)) ! r) = store (registries w ! r)
   \<and> length (loggers (snd (Reload r w))) = length (loggers w)
   \<and> map lname (loggers (snd (Reload r w))) = map lname (loggers w)
   \<and> map lfields (loggers (snd (Reload r w))) = map lfields (loggers w)
   \<and> fieldmaps (snd (Reload r w)) = fieldmaps w
   \<and> RootName (snd (Reload r w)) = RootName w"
proof (cases "deref (registries w) (Some r)")
  case None
  then show ?thesis by (simp add: Reload_def)
next
  case (Some rg)
  let ?keys = "sort (remdups (map fst (store rg)))"
  show ?thesis
  proof (cases "resolveAll (config rg) ?keys [] w")
    case (Inl err)
    with Some show ?thesis by (simp add: Reload_def)
  next
    case (Inr p)
    obtain configs w1 where p: "p = (configs, w1)" by (cases p)
    obtain e w' where c: "configureAll r configs ?keys w1 = (e, w')"
      by (cases "configureAll r configs ?keys w1")
    have "Reload r w = (e, w')" using Some Inr p c by (simp add: Reload_def)
    with resolveAll_frame[OF Inr[unfolded p]] configureAll_frame[OF c] show ?thesis by simp
  qed
qed

subsection \<open>One iteration of the module loop\<close>

lemma deref_Some_iff: "deref h p = Some x \<longleftrightarrow> (\<exists>a. p = Some a \<and> a < length h \<and> h ! a = x)"
  by (auto simp: deref_def split: option.splits)

lemma deref_Some_valid [simp]: "a < length h \<Longrightarrow> deref h (Some a) = Some (h ! a)"
  by (simp add: deref_def)

lemma newRegistryBody_section:
  assumes "deref (vipers w) c = Some cd" "InConfig cd k" "Sub cd k = Some sd"
  shows "newRegistryBody dflt ra c context k w = Inr (w\<lparr>
      vipers := vipers w @ [dflt sd],
      fieldmaps := fieldmaps w @ [context(''module'' \<mapsto> VString
          (if IsSet (dflt sd) ''name'' then GetString (dflt sd) ''name'' else k))],
      loggers := loggers w @ [\<lparr>lname = k, lfields = length (fieldmaps w),
          lconfig = Some (length (vipers w)), lparent = None, reg = Some ra, configured = []\<rparr>],
      registries := (registries w)[ra := (registries w ! ra)
          \<lparr>store := AList.update k (Some (length (loggers w))) (store (registries w ! ra))\<rparr>]\<rparr>)"
proof -
  from assms(1) obtain ca where c: "c = Some ca" "ca < length (vipers w)" "vipers w ! ca = cd"
    by (auto simp: deref_Some_iff)
  show ?thesis
    using c assms(2,3)
    by (simp add: newRegistryBody_def makeFields_def copyFields_def setField_def
        newNamedLogger_def setReg_def storePut_def allocViper_def Let_def)
qed

lemma newRegistryBody_fallback:
  assumes "deref (vipers w) (Some ca) = Some cd" "\<not> InConfig cd k"
  shows "newRegistryBody dflt ra (Some ca) context k w = Inr (w\<lparr>
      vipers := (vipers w)[ca := dflt cd],
      fieldmaps := fieldmaps w @ [context(''module'' \<mapsto> VString
          (if IsSet (dflt cd) ''name'' then GetString (dflt cd) ''name'' else k))],
      loggers := loggers w @ [\<lparr>lname = k, lfields = length (fieldmaps w),
          lconfig = Some ca, lparent = None, reg = Some ra, configured = []\<rparr>],
      registries := (registries w)[ra := (registries w ! ra)
          \<lparr>store := AList.update k (Some (length (loggers w))) (store (registries w ! ra))\<rparr>]\<rparr>)"
proof -
  from assms(1) have c: "ca < length (vipers w)" "vipers w ! ca = cd"
    by (auto simp: deref_Some_iff)
  show ?thesis
    using c assms(2)
    by (simp add: newRegistryBody_def makeFields_def copyFields_def setField_def
        newNamedLogger_def setReg_def storePut_def allocViper_def Let_def)
qed

lemma newRegistryBody_panics:
  "deref (vipers w) c = None \<Longrightarrow> newRegistryBody dflt ra c context k w = Inl NilDeref"
  "deref (vipers w) c = Some cd \<Longrightarrow> InConfig cd k \<Longrightarrow> Sub cd k = None \<Longrightarrow>
     newRegistryBody dflt ra c context k w = Inl NilDeref"
  by (auto simp: newRegistryBody_def makeFields_def copyFields_def allocViper_def
      deref_Some_iff Let_def deref_def[of _ None])


subsection \<open>The module loop\<close>






subsection \<open>The registry of a configuration with modules\<close>













subsection \<open>The context maps of the module loggers\<close>


lemma newRegistryBody_context:
  assumes b: "newRegistryBody dflt ra c context k w = Inr w1"
    and d: "deref (vipers w) c = Some cd"
  shows "deref (vipers w1) c = Some (if InConfig cd k then cd else dflt cd)"
    and "InConfig cd k \<Longrightarrow> \<exists>sd. Sub cd k = Some sd \<and>
           fieldmaps w1 = fieldmaps w @ [context(''module'' \<mapsto> VString
              (if IsSet (dflt sd) ''name'' then GetString (dflt sd) ''name'' else k))]"
    and "\<not> InConfig cd k \<Longrightarrow>
           fieldmaps w1 = fieldmaps w @ [context(''module'' \<mapsto> VString
              (if IsSet (dflt cd) ''name'' then GetString (dflt cd) ''name'' else k))]"
proof -
  from d obtain ca where c: "c = Some ca" and ca: "ca < length (vipers w)"
    and cd: "vipers w ! ca = cd"
    by (auto simp: deref_Some_iff)
  have sec: "\<exists>sd. Sub cd k = Some sd \<and> w1 = w\<lparr>
      vipers := vipers w @ [dflt sd],
      fieldmaps := fieldmaps w @ [context(''module'' \<mapsto> VString
          (if IsSet (dflt sd) ''name'' then GetString (dflt sd) ''name'' else k))],
      loggers := loggers w @ [\<lparr>lname = k, lfields = length (fieldmaps w),
          lconfig = Some (length (vipers w)), lparent = None, reg = Some ra, configured = []\<rparr>],
      registries := (registries w)[ra := (registries w ! ra)
          \<lparr>store := AList.update k (Some (length (loggers w))) (store (registries w ! ra))\<rparr>]\<rparr>"
    if ic: "InConfig cd k"
  proof (cases "Sub cd k")
    case None
    with b newRegistryBody_panics(2)[OF d ic, of dflt ra "context"] show ?thesis by simp
  next
    case (Some sd)
    with b newRegistryBody_section[OF d ic Some, of dflt ra "context"] show ?thesis by simp
  qed
  have fb: "w1 = w\<lparr>
      vipers := (vipers w)[ca := dflt cd],
      fieldmaps := fieldmaps w @ [context(''module'' \<mapsto> VString
          (if IsSet (dflt cd) ''name'' then GetString (dflt cd) ''name'' else k))],
      loggers := loggers w @ [\<lparr>lname = k, lfields = length (fieldmaps w),
          lconfig = Some ca, lparent = None, reg = Some ra, configured = []\<rparr>],
      registries := (registries w)[ra := (registries w ! ra)
          \<lparr>store := AList.update k (Some (length (loggers w))) (store (registries w ! ra))\<rparr>]\<rparr>"
    if nic: "\<not> InConfig cd k"
    using b newRegistryBody_fallback[OF d[unfolded c] nic, of dflt ra "context"] c by simp
  show "deref (vipers w1) c = Some (if InConfig cd k then cd else dflt cd)"
  proof (cases "InConfig cd k")
    case True
    from sec[OF True] obtain sd where "vipers w1 = vipers w @ [dflt sd]" by auto
    with True c ca cd show ?thesis by (simp add: deref_def nth_append)
  next
    case False
    from fb[OF False] have "vipers w1 = (vipers w)[ca := dflt cd]" by simp
    with False c ca show ?thesis by (simp add: deref_def)
  qed
  show "\<exists>sd. Sub cd k = Some sd \<and>
           fieldmaps w1 = fieldmaps w @ [context(''module'' \<mapsto> VString
              (if IsSet (dflt sd) ''name'' then GetString (dflt sd) ''name'' else k))]"
    if "InConfig cd k"
  proof -
    from sec[OF that] obtain sd where s: "Sub cd k = Some sd" and w1: "w1 = w\<lparr>
      vipers := vipers w @ [dflt sd],
      fieldmaps := fieldmaps w @ [context(''module'' \<mapsto> VString
          (if IsSet (dflt sd) ''name'' then GetString (dflt sd) ''name'' else k))],
      loggers := loggers w @ [\<lparr>lname = k, lfields = length (fieldmaps w),
          lconfig = Some (length (vipers w)), lparent = None, reg = Some ra, configured = []\<rparr>],
      registries := (registries w)[ra := (registries w ! ra)
          \<lparr>store := AList.update k (Some (length (loggers w))) (store (registries w ! ra))\<rparr>]\<rparr>"
      by (elim exE conjE)
    have "fieldmaps w1 = fieldmaps w @ [context(''module'' \<mapsto> VString
              (if IsSet (dflt sd) ''name'' then GetString (dflt sd) ''name'' else k))]"
      by (simp add: w1)
    with s show ?thesis by (intro exI[of _ sd] conjI)
  qed
  show "fieldmaps w1 = fieldmaps w @ [context(''module'' \<mapsto> VString
              (if IsSet (dflt cd) ''name'' then GetString (dflt cd) ''name'' else k))]"
    if "\<not> InConfig cd k"
    using fb[OF that] by simp
qed



lemma newRegistryLoop_narrowed:
  assumes "newRegistryLoop dflt ra c context ks w = Inr w'"
    and "deref (vipers w) c = Some cd"
  shows "deref (vipers w') c = Some (narrowedAfter dflt cd ks)"
  using assms
proof (induction ks arbitrary: w cd)
  case Nil
  then show ?case by simp
next
  case (Cons k ks)
  from Cons.prems(1) obtain w1 where
    b: "newRegistryBody dflt ra c context k w = Inr w1" and
    l: "newRegistryLoop dflt ra c context ks w1 = Inr w'"
    by (auto split: sum.splits)
  from Cons.IH[OF l newRegistryBody_context(1)[OF b Cons.prems(2)]]
  show ?case by simp
qed



end
